theory Spec2Isabelle
  imports Complex_Main "HOL-Library.Log_Nat"
begin

section \<open>Python values used by the booking scripts\<close>

text \<open>
  The scripts \<^verbatim>\<open>scripts/create_booking.py\<close> and \<^verbatim>\<open>scripts/create_group_booking.py\<close>
  compute with Python \<^verbatim>\<open>int\<close> (unbounded, modelled as \<^typ>\<open>int\<close>) and Python
  \<^verbatim>\<open>float\<close> (IEEE 754 binary64).  A float is modelled by the exact rational it
  denotes, together with the four special values; every arithmetic operation rounds
  its exact result to the nearest binary64 value, ties to even, as the hardware does.
\<close>

datatype pyfloat = Finite rat | NegZero | PosInf | NegInf | NaN

text \<open>The exceptions the modelled operations can raise.\<close>

datatype py_error = OverflowError | ValueError | ZeroDivisionError | AttributeError

text \<open>A number as Python holds it at run time: an \<^verbatim>\<open>int\<close> or a \<^verbatim>\<open>float\<close>.\<close>

datatype pynum = In int | Fl pyfloat

subsection \<open>Rounding to binary64\<close>

definition pow2 :: "int \<Rightarrow> rat" where
  "pow2 e = (if 0 \<le> e then 2 ^ nat e else 1 / 2 ^ nat (- e))"

text \<open>Round to the nearest integer, a tie going to the even neighbour.\<close>

definition round_half_even :: "rat \<Rightarrow> int" where
  "round_half_even x =
     (let f = \<lfloor>x\<rfloor>; r = x - of_int f
      in if r < 1 / 2 then f
         else if 1 / 2 < r then f + 1
         else if even f then f else f + 1)"

text \<open>
  \<open>binade x\<close> is the integer \<open>e\<close> with \<open>2\<^sup>e \<le> \<bar>x\<bar> < 2\<^sup>e\<^sup>+\<^sup>1\<close>, for \<open>x \<noteq> 0\<close>,
  computed from the bit length of the integer part of \<open>\<bar>x\<bar>\<close> or of \<open>1 / \<bar>x\<bar>\<close>.
\<close>

definition binade :: "rat \<Rightarrow> int" where
  "binade x =
     (let a = \<bar>x\<bar>
      in if 1 \<le> a then bitlen \<lfloor>a\<rfloor> - 1
         else (let k = bitlen \<lfloor>1 / a\<rfloor> - 1
               in if pow2 (- k) \<le> a then - k else - k - 1))"

text \<open>
  The spacing of binary64 values around \<open>x\<close> is \<open>2\<^sup>q\<close> with \<open>q = max e (-1022) - 52\<close>:
  53 significant bits, and the fixed spacing \<open>2\<^sup>-\<^sup>1\<^sup>0\<^sup>7\<^sup>4\<close> of the subnormal range.
\<close>

definition quantum_exp :: "rat \<Rightarrow> int" where
  "quantum_exp x = max (binade x) (- 1022) - 52"

text \<open>
  \<open>nearest x\<close> is the multiple of the spacing \<open>2\<^sup>q\<close> nearest to \<open>x\<close>, a tie going to the
  even multiple.
\<close>

definition nearest :: "rat \<Rightarrow> rat" where
  "nearest x = of_int (round_half_even (x / pow2 (quantum_exp x))) * pow2 (quantum_exp x)"

text \<open>
  \<open>to_double x\<close> is the binary64 value nearest to the exact value \<open>x\<close> (ties to even).
  A result of magnitude \<open>2\<^sup>1\<^sup>0\<^sup>2\<^sup>4\<close> or more (binade 1024 or above) is an infinity; a
  negative value that rounds to zero is the negative zero.
\<close>

definition to_double :: "rat \<Rightarrow> pyfloat" where
  "to_double x =
     (if x = 0 then Finite 0
      else
        (let y = nearest x
         in if 1024 \<le> binade y then (if 0 < x then PosInf else NegInf)
            else if y = 0 \<and> x < 0 then NegZero
            else Finite y))"


fun sign_bit :: "pyfloat \<Rightarrow> bool" where
  "sign_bit (Finite r) = (r < 0)"
| "sign_bit NegZero = True"
| "sign_bit NegInf = True"
| "sign_bit _ = False"

fun is_zero :: "pyfloat \<Rightarrow> bool" where
  "is_zero (Finite r) = (r = 0)"
| "is_zero NegZero = True"
| "is_zero _ = False"

fun is_inf :: "pyfloat \<Rightarrow> bool" where
  "is_inf PosInf = True"
| "is_inf NegInf = True"
| "is_inf _ = False"

text \<open>The exact value of a finite float (zero for the negative zero).\<close>

fun fval :: "pyfloat \<Rightarrow> rat" where
  "fval (Finite r) = r"
| "fval _ = 0"

subsection \<open>Float arithmetic\<close>

text \<open>\<^verbatim>\<open>x * y\<close> on floats.\<close>

definition fmul :: "pyfloat \<Rightarrow> pyfloat \<Rightarrow> pyfloat" where
  "fmul x y =
     (if x = NaN \<or> y = NaN then NaN
      else if (is_inf x \<and> is_zero y) \<or> (is_zero x \<and> is_inf y) then NaN
      else if is_inf x \<or> is_inf y then
        (if sign_bit x \<noteq> sign_bit y then NegInf else PosInf)
      else if is_zero x \<or> is_zero y then
        (if sign_bit x \<noteq> sign_bit y then NegZero else Finite 0)
      else to_double (fval x * fval y))"

text \<open>\<^verbatim>\<open>x - y\<close> on floats.\<close>

definition fsub :: "pyfloat \<Rightarrow> pyfloat \<Rightarrow> pyfloat" where
  "fsub x y =
     (if x = NaN \<or> y = NaN then NaN
      else if is_inf x \<and> is_inf y then
        (if sign_bit x = sign_bit y then NaN else x)
      else if is_inf x then x
      else if is_inf y then (if sign_bit y then PosInf else NegInf)
      else if fval x - fval y = 0 then
        (if x = NegZero \<and> y = Finite 0 then NegZero else Finite 0)
      else to_double (fval x - fval y))"

text \<open>
  \<^verbatim>\<open>a / b\<close> on two \<^verbatim>\<open>int\<close>s: the correctly rounded quotient, \<^verbatim>\<open>ZeroDivisionError\<close>
  for a zero divisor, and \<^verbatim>\<open>OverflowError\<close> when the quotient is too large for a float.
\<close>

definition py_truediv :: "int \<Rightarrow> int \<Rightarrow> py_error + pyfloat" where
  "py_truediv a b =
     (if b = 0 then Inl ZeroDivisionError
      else if a = 0 then Inr (if b < 0 then NegZero else Finite 0)
      else (let r = to_double (of_int a / of_int b)
            in if is_inf r then Inl OverflowError else Inr r))"

text \<open>Exact comparison \<^verbatim>\<open>a < b\<close> of two numbers; false when one is a NaN.\<close>

fun float_less_rat :: "pyfloat \<Rightarrow> rat \<Rightarrow> bool" where
  "float_less_rat (Finite r) q = (r < q)"
| "float_less_rat NegZero q = (0 < q)"
| "float_less_rat NegInf q = True"
| "float_less_rat _ q = False"

fun rat_less_float :: "rat \<Rightarrow> pyfloat \<Rightarrow> bool" where
  "rat_less_float q (Finite r) = (q < r)"
| "rat_less_float q NegZero = (q < 0)"
| "rat_less_float q PosInf = True"
| "rat_less_float q _ = False"

fun float_less :: "pyfloat \<Rightarrow> pyfloat \<Rightarrow> bool" where
  "float_less NaN y = False"
| "float_less x NaN = False"
| "float_less PosInf y = False"
| "float_less NegInf y = (y \<noteq> NegInf)"
| "float_less x PosInf = True"
| "float_less x NegInf = False"
| "float_less x y = (fval x < fval y)"

fun py_less :: "pynum \<Rightarrow> pynum \<Rightarrow> bool" where
  "py_less (In a) (In b) = (a < b)"
| "py_less (In a) (Fl y) = rat_less_float (of_int a) y"
| "py_less (Fl x) (In b) = float_less_rat x (of_int b)"
| "py_less (Fl x) (Fl y) = float_less x y"

text \<open>\<^verbatim>\<open>max(a, b)\<close>: the first argument unless the second is greater.\<close>

definition py_max :: "pynum \<Rightarrow> pynum \<Rightarrow> pynum" where
  "py_max a b = (if py_less a b then b else a)"

text \<open>
  \<^verbatim>\<open>x * k\<close> for an \<^verbatim>\<open>int\<close> literal \<open>k\<close> that is exactly a float: an \<^verbatim>\<open>int\<close> stays
  an \<^verbatim>\<open>int\<close>, a float is multiplied by the float \<open>k\<close>.
\<close>

fun py_mul_lit :: "pynum \<Rightarrow> int \<Rightarrow> pynum" where
  "py_mul_lit (In a) k = In (a * k)"
| "py_mul_lit (Fl x) k = Fl (fmul x (Finite (of_int k)))"

text \<open>
  \<^verbatim>\<open>round(x)\<close> with one argument: the identity on an \<^verbatim>\<open>int\<close>; on a float the nearest
  \<^verbatim>\<open>int\<close>, ties to even, \<^verbatim>\<open>OverflowError\<close> for an infinity and \<^verbatim>\<open>ValueError\<close>
  for a NaN.
\<close>

fun py_round :: "pynum \<Rightarrow> py_error + int" where
  "py_round (In a) = Inr a"
| "py_round (Fl (Finite r)) = Inr (round_half_even r)"
| "py_round (Fl NegZero) = Inr 0"
| "py_round (Fl PosInf) = Inl OverflowError"
| "py_round (Fl NegInf) = Inl OverflowError"
| "py_round (Fl NaN) = Inl ValueError"


section \<open>The fare of a group booking\<close>

text \<open>
  \<^verbatim>\<open>calculate_fare\<close> of \<^verbatim>\<open>create_group_booking.py\<close>.  The literal \<^verbatim>\<open>1\<close> in
  \<^verbatim>\<open>distance_km - 1\<close> becomes the float \<open>1.0\<close>; \<^verbatim>\<open>max(0, ...)\<close> returns the \<^verbatim>\<open>int\<close>
  \<open>0\<close> unless the float is positive.
\<close>

definition calculate_fare :: "int \<Rightarrow> int \<Rightarrow> py_error + int" where
  "calculate_fare distance_meters passenger_count =
     (case py_truediv distance_meters 1000 of
        Inl e \<Rightarrow> Inl e
      | Inr distance_km \<Rightarrow>
          (let base_fare = 25;
               additional_km = py_max (In 0) (Fl (fsub distance_km (Finite 1)))
           in case py_round (py_mul_lit additional_km 8) of
                Inl e \<Rightarrow> Inl e
              | Inr additional_fare \<Rightarrow>
                  (let additional_passenger_fare = (passenger_count - 1) * 10;
                       total_fare = base_fare + additional_fare + additional_passenger_fare
                   in py_round (In total_fare))))"

text \<open>
  The fare as the specification words it, over exact arithmetic:
  \<open>fare = round (25 + round (max 0 (distanceMeters / 1000 - 1) * 8) + (passengerCount - 1) * 10)\<close>,
  each \<open>round\<close> to the nearest integer with ties to even.
\<close>

definition fare_formula :: "int \<Rightarrow> int \<Rightarrow> int" where
  "fare_formula distance_meters passenger_count =
     round_half_even
       (of_int (25 + round_half_even (max 0 (of_int distance_meters / 1000 - 1) * 8)
                + (passenger_count - 1) * 10))"

section \<open>Strings\<close>

text \<open>\<^verbatim>\<open>str(n)\<close> for an \<^verbatim>\<open>int\<close>: decimal digits, with a leading minus sign when negative.\<close>

definition digit_char :: "nat \<Rightarrow> char" where
  "digit_char n = ''0123456789'' ! n"

fun str_nat :: "nat \<Rightarrow> string" where
  "str_nat n = (if n < 10 then [digit_char n] else str_nat (n div 10) @ [digit_char (n mod 10)])"

declare str_nat.simps [simp del]

definition str_int :: "int \<Rightarrow> string" where
  "str_int i = (if i < 0 then CHR ''-'' # str_nat (nat (- i)) else str_nat (nat i))"



section \<open>Documents of the store\<close>

text \<open>
  A value held in a Firestore document, as the client library hands it to Python.
  A map is an association list, looked up with \<^const>\<open>map_of\<close>.
\<close>

datatype pyval =
    PNone
  | PBool bool
  | PInt int
  | PFloat pyfloat
  | PStr string
  | PDatetime int
  | PList "pyval list"
  | PDict "(string \<times> pyval) list"

type_synonym pydict = "(string \<times> pyval) list"

text \<open>Truth value of a Python object in a condition.\<close>

fun truthy :: "pyval \<Rightarrow> bool" where
  "truthy PNone = False"
| "truthy (PBool b) = b"
| "truthy (PInt i) = (i \<noteq> 0)"
| "truthy (PFloat x) = (\<not> is_zero x)"
| "truthy (PStr s) = (s \<noteq> [])"
| "truthy (PDatetime t) = True"
| "truthy (PList xs) = (xs \<noteq> [])"
| "truthy (PDict kvs) = (kvs \<noteq> [])"

text \<open>\<^verbatim>\<open>d.get(key, default)\<close> on a \<^verbatim>\<open>dict\<close>.\<close>

definition dict_get :: "pydict \<Rightarrow> string \<Rightarrow> pyval \<Rightarrow> pyval" where
  "dict_get d key dflt = (case map_of d key of None \<Rightarrow> dflt | Some v \<Rightarrow> v)"

text \<open>The sentinel \<^verbatim>\<open>firestore.SERVER_TIMESTAMP\<close>, replaced by the server on write.\<close>

datatype sentinel = SERVER_TIMESTAMP

record location =
  latitude :: pyfloat
  longitude :: pyfloat
  name :: string
  geohash :: "string option"

record guardian_notification =
  guardian_name :: pyval
  guardian_phoneNumber :: pyval
  guardian_relationship :: pyval
  notified :: bool

text \<open>
  The booking document \<^verbatim>\<open>booking_data\<close>.  A key that only one of the two scripts
  writes (\<^verbatim>\<open>passengerCount\<close>, \<^verbatim>\<open>isGroupBooking\<close>) or that is written under a
  condition (\<^verbatim>\<open>guardianNotification\<close>) is an option, \<open>None\<close> when the key is absent;
  \<^verbatim>\<open>driverId\<close> holds a Python value, which both scripts set to \<^verbatim>\<open>None\<close>.  The key
  \<^verbatim>\<open>id\<close> is the field \<open>doc_id\<close>.
\<close>

record booking =
  doc_id :: string
  passengerId :: string
  passengerName :: pyval
  passengerPhone :: pyval
  passengerCount :: "int option"
  pickupLocation :: location
  dropoffLocation :: location
  status :: string
  dateTime :: sentinel
  estimatedDistance :: int
  estimatedDuration :: int
  estimatedFare :: int
  isGroupBooking :: "bool option"
  driverId :: pyval
  createdAt :: sentinel
  updatedAt :: sentinel
  guardianNotification :: "guardian_notification option"




section \<open>The world the scripts run in\<close>

text \<open>
  The two collections of the document store, and the two sources of values the
  scripts do not compute: \<^verbatim>\<open>uuid.uuid4()\<close> and \<^verbatim>\<open>random.randint\<close>.  The \<open>k\<close>-th call
  of \<^verbatim>\<open>uuid4\<close> returns \<open>uuid_source k\<close>; the counters record how many calls were made.
  The store is taken to answer every read and write, and \<^verbatim>\<open>print\<close> to succeed: the
  exceptions modelled are those the scripts' own computations raise.
\<close>

record world =
  passengers :: "string \<rightharpoonup> pydict"
  bookings :: "string \<rightharpoonup> booking"
  uuid_source :: "nat \<Rightarrow> string"
  uuid_calls :: nat
  random_source :: "nat \<Rightarrow> int"
  random_calls :: nat


text \<open>
  \<^verbatim>\<open>random.randint(a, b)\<close> returns some integer \<open>N\<close> with \<open>a \<le> N \<le> b\<close>.  The draw is
  taken from the next value \<open>r\<close> of the random source, folded into the range; every
  \<open>N\<close> of the range is returned for some \<open>r\<close> (for \<open>r = N\<close>), and nothing else is.
\<close>

definition randint :: "int \<Rightarrow> int \<Rightarrow> world \<Rightarrow> int \<times> world" where
  "randint a b w =
     (a + (random_source w (random_calls w) - a) mod (b - a + 1),
      w\<lparr>random_calls := Suc (random_calls w)\<rparr>)"

section \<open>Creating a booking\<close>





text \<open>
  The guardian block of both scripts:
  \<^verbatim>\<open>if 'guardian' in passenger_data and passenger_data['guardian'].get('phoneNumber'):\<close>.
  The result is the sub-record to attach, if any; a \<^verbatim>\<open>guardian\<close> entry that is not a
  map has no \<^verbatim>\<open>get\<close> and raises \<^verbatim>\<open>AttributeError\<close>.
\<close>

definition guardian_block :: "pydict \<Rightarrow> py_error + guardian_notification option" where
  "guardian_block passenger_data =
     (case map_of passenger_data ''guardian'' of
        None \<Rightarrow> Inr None
      | Some (PDict guardian) \<Rightarrow>
          (if truthy (dict_get guardian ''phoneNumber'' PNone)
           then Inr (Some \<lparr>guardian_name = dict_get guardian ''name'' (PStr ''Guardian''),
                           guardian_phoneNumber = dict_get guardian ''phoneNumber'' PNone,
                           guardian_relationship =
                             dict_get guardian ''relationship'' (PStr ''Guardian''),
                           notified = False\<rparr>)
           else Inr None)
      | Some _ \<Rightarrow> Inl AttributeError)"





section \<open>The rule on the guardian sub-record\<close>


section \<open>A sample world\<close>

text \<open>
  A store with a passenger as \<^verbatim>\<open>create_passenger.py\<close> writes it (a name, a phone number,
  a guardian with a phone number), under the identifier \<open>p1\<close>; no bookings; and fixed
  sources of identifiers and random draws.  The worked examples below run in it.
\<close>

definition demo_passenger :: pydict where
  "demo_passenger =
     [(''id'', PStr ''p1''),
      (''name'', PStr ''Test Passenger''),
      (''email'', PNone),
      (''phoneNumber'', PStr ''09670575500''),
      (''sex'', PStr ''Male''),
      (''dateOfBirth'', PDatetime 631152000),
      (''guardian'', PDict [(''name'', PStr ''Test Guardian''),
                            (''relationship'', PStr ''Parent''),
                            (''phoneNumber'', PStr ''09670575500'')]),
      (''createdAt'', PDatetime 1700000000),
      (''updatedAt'', PDatetime 1700000000)]"

definition demo_uuid :: "nat \<Rightarrow> string" where
  "demo_uuid k = ''booking-'' @ str_nat k"

definition demo_random :: "nat \<Rightarrow> int" where
  "demo_random k = 2500 + 1000 * int k"

definition demo_world :: world where
  "demo_world =
     \<lparr>passengers = [''p1'' \<mapsto> demo_passenger],
      bookings = Map.empty,
      uuid_source = demo_uuid,
      uuid_calls = 0,
      random_source = demo_random,
      random_calls = 0\<rparr>"

section \<open>Properties of rounding\<close>

subsection \<open>Powers of two, nearest integers and binades\<close>

lemma pow2_powi: "pow2 e = 2 powi e"
  by (simp add: pow2_def power_int_def power_one_over inverse_eq_divide)

lemma pow2_pos: "0 < pow2 e"
  by (simp add: pow2_powi)

lemma pow2_add: "pow2 (a + b) = pow2 a * pow2 b"
  by (simp add: pow2_powi power_int_add)

lemma pow2_mono: "a \<le> b \<Longrightarrow> pow2 a \<le> pow2 b"
  by (simp add: pow2_powi power_int_increasing)

lemma pow2_strict_mono: "a < b \<Longrightarrow> pow2 a < pow2 b"
  by (simp add: pow2_powi power_int_strict_increasing)

lemma pow2_nat: "0 \<le> e \<Longrightarrow> pow2 e = of_int (2 ^ nat e)"
  by (simp add: pow2_def)

lemma pow2_neg: "pow2 (- e) = 1 / pow2 e"
  by (simp add: pow2_powi power_int_minus_divide)

lemma pow2_less_cancel: "pow2 a < pow2 b \<Longrightarrow> a < b"
  using pow2_mono [of b a] by (cases "a < b") auto

lemma inv_less_swap: "0 < a \<Longrightarrow> 0 < P \<Longrightarrow> 1 / a < P \<Longrightarrow> 1 / P < (a::rat)"
  by (simp add: field_simps)

lemma inv_le_swap: "0 < a \<Longrightarrow> 0 < P \<Longrightarrow> P \<le> 1 / a \<Longrightarrow> a \<le> 1 / (P::rat)"
  by (simp add: field_simps)

lemma rhe_err: "\<bar>of_int (round_half_even y) - y\<bar> \<le> 1 / 2"
proof -
  have "of_int \<lfloor>y\<rfloor> \<le> y" "y < of_int \<lfloor>y\<rfloor> + 1" by linarith+
  then show ?thesis
    by (auto simp: round_half_even_def Let_def)
qed

lemma rhe_eqI:
  assumes "of_int k - 1 / 2 < y" "y < of_int k + 1 / 2"
  shows "round_half_even y = k"
proof -
  have e: "\<bar>of_int (round_half_even y) - y\<bar> \<le> 1 / 2" by (rule rhe_err)
  have "\<bar>(of_int (round_half_even y) :: rat) - of_int k\<bar> < 1"
    using e assms by linarith
  then have "\<bar>of_int (round_half_even y - k) :: rat\<bar> < 1" by simp
  then have "\<bar>round_half_even y - k\<bar> < 1"
    by (metis of_int_abs of_int_less_1_iff)
  then show ?thesis by simp
qed

lemma rhe_of_int: "round_half_even (of_int k) = k"
  by (rule rhe_eqI) simp_all

lemma rhe_le:
  assumes "y \<le> of_int k"
  shows "round_half_even y \<le> k"
proof (cases "y = of_int k")
  case True
  then show ?thesis by (simp add: rhe_of_int)
next
  case False
  with assms have lt: "y < of_int k" by simp
  then have "\<lfloor>y\<rfloor> < k" by (simp add: floor_less_iff)
  then have f: "\<lfloor>y\<rfloor> + 1 \<le> k" by simp
  show ?thesis using f by (auto simp: round_half_even_def Let_def)
qed

lemma rhe_ge:
  assumes "of_int k \<le> y"
  shows "k \<le> round_half_even y"
proof -
  from assms have "k \<le> \<lfloor>y\<rfloor>" by (simp add: le_floor_iff)
  then show ?thesis by (auto simp: round_half_even_def Let_def)
qed

lemma binade_zero: "binade 0 = 0"
  by code_simp

lemma binade_bounds:
  assumes "x \<noteq> 0"
  shows "pow2 (binade x) \<le> \<bar>x\<bar> \<and> \<bar>x\<bar> < pow2 (binade x + 1)"
proof (cases "1 \<le> \<bar>x\<bar>")
  case True
  define n where "n = \<lfloor>\<bar>x\<bar>\<rfloor>"
  have npos: "0 < n" using True by (simp add: n_def)
  have b: "binade x = bitlen n - 1" using True by (simp add: binade_def n_def)
  have bl: "1 \<le> bitlen n" using npos bitlen_eq_zero_iff [of n] bitlen_nonneg [of n] by linarith
  from bitlen_bounds [OF npos] have lo: "2 ^ nat (bitlen n - 1) \<le> n" and hi: "n < 2 ^ nat (bitlen n)"
    by auto
  have "pow2 (bitlen n - 1) = of_int (2 ^ nat (bitlen n - 1))" using bl by (simp add: pow2_nat)
  also have "\<dots> \<le> of_int n" using lo by (simp only: of_int_le_iff)
  also have "\<dots> \<le> \<bar>x\<bar>" by (simp add: n_def)
  finally have 1: "pow2 (binade x) \<le> \<bar>x\<bar>" by (simp add: b)
  have "n + 1 \<le> 2 ^ nat (bitlen n)" using hi by simp
  then have "(of_int (n + 1) :: rat) \<le> of_int (2 ^ nat (bitlen n))" by (simp only: of_int_le_iff)
  moreover have "\<bar>x\<bar> < of_int (n + 1)" unfolding n_def by linarith
  moreover have "pow2 (bitlen n) = of_int (2 ^ nat (bitlen n))" using bl by (simp add: pow2_nat)
  ultimately have 2: "\<bar>x\<bar> < pow2 (binade x + 1)" by (simp add: b)
  from 1 2 show ?thesis ..
next
  case False
  define a where "a = \<bar>x\<bar>"
  have a: "0 < a" "a < 1" using False assms by (simp_all add: a_def)
  define m where "m = \<lfloor>1 / a\<rfloor>"
  have "1 \<le> 1 / a" using a by simp
  then have mpos: "0 < m" by (simp add: m_def)
  define k where "k = bitlen m - 1"
  have bl: "1 \<le> bitlen m" using mpos bitlen_eq_zero_iff [of m] bitlen_nonneg [of m] by linarith
  then have k0: "0 \<le> k" by (simp add: k_def)
  from bitlen_bounds [OF mpos] have lo: "2 ^ nat k \<le> m" and hi: "m < 2 ^ nat (k + 1)"
    by (auto simp: k_def)
  have "pow2 k = of_int (2 ^ nat k)" using k0 by (simp add: pow2_nat)
  also have "\<dots> \<le> of_int m" using lo by (simp only: of_int_le_iff)
  also have "\<dots> \<le> 1 / a" by (simp add: m_def)
  finally have l1: "pow2 k \<le> 1 / a" .
  have "m + 1 \<le> 2 ^ nat (k + 1)" using hi by simp
  then have "(of_int (m + 1) :: rat) \<le> of_int (2 ^ nat (k + 1))" by (simp only: of_int_le_iff)
  moreover have "1 / a < of_int (m + 1)" unfolding m_def by linarith
  moreover have "pow2 (k + 1) = of_int (2 ^ nat (k + 1))" using k0 by (simp add: pow2_nat)
  ultimately have l2: "1 / a < pow2 (k + 1)" by simp
  have u1: "a \<le> pow2 (- k)"
    using inv_le_swap [OF a(1) pow2_pos l1] by (simp add: pow2_neg)
  have u2: "pow2 (- k - 1) < a"
  proof -
    have "pow2 (- k - 1) = 1 / pow2 (k + 1)" using pow2_neg [of "k + 1"] by simp
    then show ?thesis using inv_less_swap [OF a(1) pow2_pos l2] by simp
  qed
  have b: "binade x = (if pow2 (- k) \<le> a then - k else - k - 1)"
    using False by (simp add: binade_def a_def m_def k_def Let_def)
  show ?thesis
  proof (cases "pow2 (- k) \<le> a")
    case True
    then have "binade x = - k" by (simp add: b)
    moreover have "a < pow2 (- k + 1)" using u1 pow2_strict_mono [of "- k" "- k + 1"] by simp
    ultimately show ?thesis using True by (simp add: a_def)
  next
    case False
    then have "binade x = - k - 1" by (simp add: b)
    then show ?thesis using False u2 by (simp add: a_def)
  qed
qed

lemma binade_unique:
  assumes "pow2 e \<le> \<bar>x\<bar>" "\<bar>x\<bar> < pow2 (e + 1)"
  shows "binade x = e"
proof -
  have "x \<noteq> 0" using assms(1) pow2_pos [of e] by auto
  from binade_bounds [OF this] have b: "pow2 (binade x) \<le> \<bar>x\<bar>" "\<bar>x\<bar> < pow2 (binade x + 1)"
    by auto
  have "pow2 e < pow2 (binade x + 1)" using assms(1) b(2) by simp
  then have 1: "e < binade x + 1" by (rule pow2_less_cancel)
  have "pow2 (binade x) < pow2 (e + 1)" using assms(2) b(1) by simp
  then have 2: "binade x < e + 1" by (rule pow2_less_cancel)
  from 1 2 show ?thesis by simp
qed

subsection \<open>Rounding to the binary64 grid\<close>

lemma nearest_err: "\<bar>nearest x - x\<bar> \<le> pow2 (quantum_exp x) / 2"
proof -
  define Q where "Q = pow2 (quantum_exp x)"
  have Q: "0 < Q" by (simp add: Q_def pow2_pos)
  have "\<bar>of_int (round_half_even (x / Q)) - x / Q\<bar> \<le> 1 / 2" by (rule rhe_err)
  then have "\<bar>of_int (round_half_even (x / Q)) - x / Q\<bar> * Q \<le> 1 / 2 * Q"
    using Q by (simp only: mult_le_cancel_right_pos)
  moreover have "\<bar>of_int (round_half_even (x / Q)) - x / Q\<bar> * Q
      = \<bar>(of_int (round_half_even (x / Q)) - x / Q) * Q\<bar>"
    using Q by (simp add: abs_mult)
  moreover have "(of_int (round_half_even (x / Q)) - x / Q) * Q
      = of_int (round_half_even (x / Q)) * Q - x"
    using Q by (simp add: left_diff_distrib)
  ultimately show ?thesis by (simp add: nearest_def Q_def)
qed

lemma nearest_le_grid:
  assumes "x \<le> of_int m * pow2 g" "quantum_exp x \<le> g"
  shows "nearest x \<le> of_int m * pow2 g"
proof -
  define q where "q = quantum_exp x"
  have Q: "0 < pow2 q" by (rule pow2_pos)
  have g: "pow2 g = pow2 (g - q) * pow2 q" using pow2_add [of "g - q" q] by simp
  have i: "pow2 (g - q) = of_int (2 ^ nat (g - q))" using assms(2) by (simp add: pow2_nat q_def)
  have "x / pow2 q \<le> of_int m * pow2 g / pow2 q"
    using assms(1) Q by (simp add: divide_right_mono)
  also have "\<dots> = of_int (m * 2 ^ nat (g - q))" using Q by (simp add: g i)
  finally have "round_half_even (x / pow2 q) \<le> m * 2 ^ nat (g - q)" by (rule rhe_le)
  then have "(of_int (round_half_even (x / pow2 q)) :: rat) \<le> of_int (m * 2 ^ nat (g - q))"
    by (simp only: of_int_le_iff)
  then have "of_int (round_half_even (x / pow2 q)) * pow2 q \<le> of_int (m * 2 ^ nat (g - q)) * pow2 q"
    using Q by (simp only: mult_le_cancel_right_pos)
  also have "of_int (m * 2 ^ nat (g - q)) * pow2 q = of_int m * pow2 g"
    by (simp add: g i)
  finally show ?thesis by (simp add: nearest_def q_def)
qed

lemma nearest_ge_grid:
  assumes "of_int m * pow2 g \<le> x" "quantum_exp x \<le> g"
  shows "of_int m * pow2 g \<le> nearest x"
proof -
  define q where "q = quantum_exp x"
  have Q: "0 < pow2 q" by (rule pow2_pos)
  have g: "pow2 g = pow2 (g - q) * pow2 q" using pow2_add [of "g - q" q] by simp
  have i: "pow2 (g - q) = of_int (2 ^ nat (g - q))" using assms(2) by (simp add: pow2_nat q_def)
  have "of_int m * pow2 g / pow2 q \<le> x / pow2 q"
    using assms(1) Q by (simp add: divide_right_mono)
  moreover have "of_int m * pow2 g / pow2 q = of_int (m * 2 ^ nat (g - q))" using Q by (simp add: g i)
  ultimately have "of_int (m * 2 ^ nat (g - q)) \<le> x / pow2 q" by simp
  then have "m * 2 ^ nat (g - q) \<le> round_half_even (x / pow2 q)" by (rule rhe_ge)
  then have "(of_int (m * 2 ^ nat (g - q)) :: rat) \<le> of_int (round_half_even (x / pow2 q))"
    by (simp only: of_int_le_iff)
  then have step: "of_int (m * 2 ^ nat (g - q)) * pow2 q \<le> of_int (round_half_even (x / pow2 q)) * pow2 q"
    using Q by (simp only: mult_le_cancel_right_pos)
  have e: "of_int (m * 2 ^ nat (g - q)) * pow2 q = of_int m * pow2 g"
    by (simp add: g i)
  show ?thesis unfolding nearest_def q_def [symmetric] using step unfolding e .
qed

lemma rhe_zero: "round_half_even 0 = 0"
  by (simp add: round_half_even_def)

lemma nearest_zero: "nearest 0 = 0"
  by (simp add: nearest_def rhe_zero)

lemma nearest_nonneg: "0 \<le> x \<Longrightarrow> 0 \<le> nearest x"
  using nearest_ge_grid [of 0 "quantum_exp x" x] by simp

lemma nearest_nonpos: "x \<le> 0 \<Longrightarrow> nearest x \<le> 0"
  using nearest_le_grid [of x 0 "quantum_exp x"] by simp

lemma quantum_exp_normal: "x \<noteq> 0 \<Longrightarrow> pow2 (- 1022) \<le> \<bar>x\<bar> \<Longrightarrow> quantum_exp x = binade x - 52"
proof -
  assume x: "x \<noteq> 0" and n: "pow2 (- 1022) \<le> \<bar>x\<bar>"
  from binade_bounds [OF x] have "\<bar>x\<bar> < pow2 (binade x + 1)" by simp
  with n have "pow2 (- 1022) < pow2 (binade x + 1)" by simp
  then have "- 1022 < binade x + 1" by (rule pow2_less_cancel)
  then show ?thesis by (simp add: quantum_exp_def)
qed

lemma nearest_rel_err:
  assumes "x \<noteq> 0" "pow2 (- 1022) \<le> \<bar>x\<bar>"
  shows "\<bar>nearest x - x\<bar> \<le> \<bar>x\<bar> * pow2 (- 53)"
proof -
  have q: "quantum_exp x = binade x - 52" using assms by (rule quantum_exp_normal)
  have "pow2 (quantum_exp x) / 2 = pow2 (binade x) * pow2 (- 53)"
    using pow2_add [of "binade x" "- 53"] pow2_add [of "binade x - 53" 1]
    by (simp add: q pow2_def)
  also have "\<dots> \<le> \<bar>x\<bar> * pow2 (- 53)"
    using binade_bounds [OF assms(1)] pow2_pos [of "- 53"] by (simp only: mult_le_cancel_right_pos)
  finally show ?thesis using nearest_err [of x] by simp
qed

lemma binade_less:
  assumes "\<bar>y\<bar> < pow2 e"
  shows "binade y < e \<or> y = 0"
proof (cases "y = 0")
  case False
  from binade_bounds [OF False] have "pow2 (binade y) \<le> \<bar>y\<bar>" by simp
  with assms have "pow2 (binade y) < pow2 e" by simp
  then show ?thesis using pow2_less_cancel by blast
qed simp

lemma binade_le:
  assumes "x \<noteq> 0" "pow2 e \<le> \<bar>x\<bar>"
  shows "e \<le> binade x"
proof -
  from binade_bounds [OF assms(1)] have "\<bar>x\<bar> < pow2 (binade x + 1)" by simp
  with assms(2) have "pow2 e < pow2 (binade x + 1)" by simp
  then have "e < binade x + 1" by (rule pow2_less_cancel)
  then show ?thesis by simp
qed

lemma nearest_no_overflow:
  assumes "\<bar>x\<bar> < pow2 1023"
  shows "binade (nearest x) < 1024"
proof (cases "x = 0")
  case True
  then show ?thesis by (simp add: nearest_zero binade_zero)
next
  case False
  have b: "binade x < 1023" using binade_less [OF assms] False by simp
  then have q: "quantum_exp x \<le> 1023" by (simp add: quantum_exp_def)
  have 1: "nearest x \<le> of_int 1 * pow2 1023"
    by (rule nearest_le_grid) (use assms q in simp_all)
  have 2: "of_int (- 1) * pow2 1023 \<le> nearest x"
    by (rule nearest_ge_grid) (use assms q in simp_all)
  have "\<bar>nearest x\<bar> \<le> pow2 1023" using 1 2 by simp
  also have "\<dots> < pow2 1024" by (rule pow2_strict_mono) simp
  finally show ?thesis using binade_less [of "nearest x" 1024] by (auto simp: binade_zero)
qed

lemma to_double_normal:
  assumes "pow2 (- 1022) \<le> \<bar>x\<bar>" "\<bar>x\<bar> < pow2 1023"
  shows "to_double x = Finite (nearest x)"
proof -
  have x: "x \<noteq> 0" using assms(1) pow2_pos [of "- 1022"] by auto
  have e: "\<bar>nearest x - x\<bar> \<le> \<bar>x\<bar> * pow2 (- 53)" using x assms(1) by (rule nearest_rel_err)
  have p: "pow2 (- 53) < 1" by (simp add: pow2_def)
  have a: "0 < \<bar>x\<bar>" using x by simp
  have "\<bar>x\<bar> * pow2 (- 53) < \<bar>x\<bar> * 1" by (rule mult_strict_left_mono [OF p a])
  with e have "\<bar>nearest x - x\<bar> < \<bar>x\<bar>" by simp
  then have "nearest x \<noteq> 0" by auto
  then show ?thesis using x nearest_no_overflow [OF assms(2)] by (simp add: to_double_def Let_def)
qed


subsection \<open>Symmetry\<close>

lemma rhe_tie_up: "even k \<Longrightarrow> round_half_even (of_int k + 1 / 2) = k"
proof -
  assume k: "even k"
  have "\<lfloor>(of_int k :: rat) + 1 / 2\<rfloor> = k" by linarith
  then show ?thesis using k by (simp add: round_half_even_def)
qed

lemma rhe_tie_down: "even k \<Longrightarrow> round_half_even (of_int k - 1 / 2) = k"
proof -
  assume k: "even k"
  have f: "\<lfloor>(of_int k :: rat) - 1 / 2\<rfloor> = k - 1" by linarith
  have "(of_int k :: rat) - 1 / 2 - of_int (k - 1) = 1 / 2" by simp
  then show ?thesis using k f by (simp add: round_half_even_def)
qed

lemma rhe_cases:
  "\<bar>y - of_int (round_half_even y)\<bar> < 1 / 2
   \<or> (even (round_half_even y)
       \<and> (y = of_int (round_half_even y) + 1 / 2 \<or> y = of_int (round_half_even y) - 1 / 2))"
proof -
  have "of_int \<lfloor>y\<rfloor> \<le> y" "y < of_int \<lfloor>y\<rfloor> + 1" by linarith+
  then show ?thesis
    by (auto simp: round_half_even_def Let_def)
qed

lemma rhe_neg: "round_half_even (- y) = - round_half_even y"
proof -
  define k where "k = round_half_even y"
  from rhe_cases [of y] consider
    "\<bar>y - of_int k\<bar> < 1 / 2" | "even k" "y = of_int k + 1 / 2" | "even k" "y = of_int k - 1 / 2"
    unfolding k_def by blast
  then have "round_half_even (- y) = - k"
  proof cases
    case 1
    then have "- of_int k - 1 / 2 < - y" "- y < - of_int k + 1 / 2" by linarith+
    then have "of_int (- k) - 1 / 2 < - y" "- y < of_int (- k) + 1 / 2" by simp_all
    then show ?thesis by (rule rhe_eqI)
  next
    case 2
    then have "- y = of_int (- k) - 1 / 2" "even (- k)" by simp_all
    then show ?thesis using rhe_tie_down [of "- k"] by simp
  next
    case 3
    then have "- y = of_int (- k) + 1 / 2" "even (- k)" by simp_all
    then show ?thesis using rhe_tie_up [of "- k"] by simp
  qed
  then show ?thesis by (simp add: k_def)
qed

lemma quantum_exp_neg: "quantum_exp (- x) = quantum_exp x"
  by (simp add: quantum_exp_def binade_def)

lemma nearest_neg: "nearest (- x) = - nearest x"
  by (simp add: nearest_def quantum_exp_neg rhe_neg)

subsection \<open>The overflow threshold\<close>

lemma binade_neg: "binade (- x) = binade x"
  by (simp add: binade_def)

lemma rhe_less_half:
  assumes "y < of_int k + 1 / 2"
  shows "round_half_even y \<le> k"
proof -
  have "\<bar>of_int (round_half_even y) - y\<bar> \<le> 1 / 2" by (rule rhe_err)
  with assms have "(of_int (round_half_even y) :: rat) < of_int k + 1" by linarith
  then have "(of_int (round_half_even y) :: rat) < of_int (k + 1)" by simp
  then have "round_half_even y < k + 1" by (simp only: of_int_less_iff)
  then show ?thesis by simp
qed

lemma rhe_ge_half_even:
  assumes "even k" "of_int k - 1 / 2 \<le> y"
  shows "k \<le> round_half_even y"
proof (cases "y = of_int k - 1 / 2")
  case True
  then show ?thesis using rhe_tie_down [OF assms(1)] by simp
next
  case False
  have "\<bar>of_int (round_half_even y) - y\<bar> \<le> 1 / 2" by (rule rhe_err)
  with assms(2) False have "(of_int k :: rat) - 1 < of_int (round_half_even y)" by linarith
  then have "(of_int (k - 1) :: rat) < of_int (round_half_even y)" by simp
  then have "k - 1 < round_half_even y" by (simp only: of_int_less_iff)
  then show ?thesis by simp
qed

text \<open>
  The largest float is \<open>(2\<^sup>5\<^sup>3 - 1) * 2\<^sup>9\<^sup>7\<^sup>1\<close>.  An exact value rounds to it or below exactly
  when its magnitude is below \<open>2\<^sup>1\<^sup>0\<^sup>2\<^sup>4 - 2\<^sup>9\<^sup>7\<^sup>0\<close>, half a spacing above it; from there on
  the rounded value is \<open>2\<^sup>1\<^sup>0\<^sup>2\<^sup>4\<close> or more, an overflow.
\<close>

lemma top_binade:
  assumes "pow2 1023 \<le> x" "x < pow2 1024"
  shows "nearest x = of_int (round_half_even (x / pow2 971)) * pow2 971"
proof -
  have "0 < x" using assms(1) pow2_pos [of 1023] by simp
  then have "binade x = 1023" using assms by (intro binade_unique) simp_all
  then have "quantum_exp x = 971" by (simp add: quantum_exp_def)
  then show ?thesis by (simp add: nearest_def)
qed

lemma pow2_1024: "pow2 1024 = 2 ^ 53 * pow2 971"
proof -
  have "pow2 1024 = pow2 53 * pow2 971" using pow2_add [of 53 971] by simp
  then show ?thesis by (simp add: pow2_def)
qed

lemma pow2_971: "pow2 971 = 2 * pow2 970"
  using pow2_add [of 1 970] by (simp add: pow2_def)

lemma nearest_below_threshold:
  assumes "0 \<le> x" "x < pow2 1024 - pow2 970"
  shows "nearest x < pow2 1024"
proof (cases "x < pow2 1023")
  case True
  then have "\<bar>x\<bar> < pow2 1023" using assms(1) by simp
  then have b: "binade (nearest x) < 1024" by (rule nearest_no_overflow)
  show ?thesis
  proof (cases "nearest x = 0")
    case True
    then show ?thesis using pow2_pos [of 1024] by simp
  next
    case False
    then have "\<bar>nearest x\<bar> < pow2 (binade (nearest x) + 1)" using binade_bounds by blast
    also have "\<dots> \<le> pow2 1024" using b by (intro pow2_mono) simp
    finally show ?thesis by simp
  qed
next
  case False
  have x: "pow2 1023 \<le> x" "x < pow2 1024" using False assms(2) pow2_pos [of 970] by simp_all
  have "x / pow2 971 < (pow2 1024 - pow2 970) / pow2 971"
    using assms(2) pow2_pos [of 971] by (simp only: divide_strict_right_mono)
  also have "(pow2 1024 - pow2 970) / pow2 971 = of_int (2 ^ 53 - 1) + 1 / 2"
    using pow2_pos [of 970] by (simp add: pow2_1024 pow2_971 field_simps)
  finally have "round_half_even (x / pow2 971) \<le> 2 ^ 53 - 1" by (rule rhe_less_half)
  then have "(of_int (round_half_even (x / pow2 971)) :: rat) \<le> of_int (2 ^ 53 - 1)"
    by (simp only: of_int_le_iff)
  then have "of_int (round_half_even (x / pow2 971)) * pow2 971 \<le> of_int (2 ^ 53 - 1) * pow2 971"
    using pow2_pos [of 971] by (simp only: mult_le_cancel_right_pos)
  also have "\<dots> < pow2 1024" using pow2_pos [of 971] by (simp add: pow2_1024)
  finally show ?thesis by (simp only: top_binade [OF x])
qed

lemma nearest_at_threshold:
  assumes "pow2 1024 - pow2 970 \<le> x"
  shows "pow2 1024 \<le> nearest x"
proof (cases "pow2 1024 \<le> x")
  case True
  have x: "x \<noteq> 0" "\<bar>x\<bar> = x" using True pow2_pos [of 1024] by simp_all
  have e: "1024 \<le> binade x" using x True by (intro binade_le) simp_all
  have "pow2 (binade x) \<le> x" using binade_bounds [OF x(1)] x(2) by simp
  then have "of_int 1 * pow2 (binade x) \<le> nearest x"
    using e by (intro nearest_ge_grid) (simp_all add: quantum_exp_def)
  moreover have "pow2 1024 \<le> pow2 (binade x)" using e by (rule pow2_mono)
  ultimately show ?thesis by simp
next
  case False
  have "pow2 1023 \<le> pow2 1024 - pow2 970"
  proof -
    have "pow2 1024 = 2 * pow2 1023" using pow2_add [of 1 1023] by (simp add: pow2_def)
    moreover have "pow2 970 \<le> pow2 1023" by (rule pow2_mono) simp
    ultimately show ?thesis by simp
  qed
  then have x: "pow2 1023 \<le> x" "x < pow2 1024" using False assms by simp_all
  have "(pow2 1024 - pow2 970) / pow2 971 \<le> x / pow2 971"
    using assms pow2_pos [of 971] by (simp only: divide_right_mono less_imp_le)
  moreover have "(pow2 1024 - pow2 970) / pow2 971 = of_int (2 ^ 53) - 1 / 2"
    using pow2_pos [of 970] by (simp add: pow2_1024 pow2_971 field_simps)
  ultimately have "of_int (2 ^ 53) - 1 / 2 \<le> x / pow2 971" by simp
  then have "2 ^ 53 \<le> round_half_even (x / pow2 971)" by (intro rhe_ge_half_even) simp_all
  then have "(of_int (2 ^ 53) :: rat) \<le> of_int (round_half_even (x / pow2 971))"
    by (simp only: of_int_le_iff)
  then have "of_int (2 ^ 53) * pow2 971 \<le> of_int (round_half_even (x / pow2 971)) * pow2 971"
    using pow2_pos [of 971] by (simp only: mult_le_cancel_right_pos)
  then show ?thesis by (simp add: top_binade [OF x] pow2_1024)
qed

lemma binade_ge_iff: "y \<noteq> 0 \<Longrightarrow> e \<le> binade y \<longleftrightarrow> pow2 e \<le> \<bar>y\<bar>"
proof
  assume "y \<noteq> 0" "e \<le> binade y"
  then have "pow2 e \<le> pow2 (binade y)" by (intro pow2_mono)
  also have "\<dots> \<le> \<bar>y\<bar>" using binade_bounds [OF \<open>y \<noteq> 0\<close>] by simp
  finally show "pow2 e \<le> \<bar>y\<bar>" .
next
  assume "y \<noteq> 0" "pow2 e \<le> \<bar>y\<bar>"
  then show "e \<le> binade y" by (rule binade_le)
qed

lemma nearest_abs: "\<bar>nearest x\<bar> = nearest \<bar>x\<bar>"
proof (cases "0 \<le> x")
  case True
  then show ?thesis using nearest_nonneg [of x] by simp
next
  case False
  then have "nearest x \<le> 0" by (intro nearest_nonpos) simp
  then show ?thesis using False by (simp add: nearest_neg abs_if)
qed

lemma to_double_inf_iff: "is_inf (to_double x) \<longleftrightarrow> pow2 1024 - pow2 970 \<le> \<bar>x\<bar>"
proof (cases "x = 0")
  case True
  have "pow2 970 < pow2 1024" by (rule pow2_strict_mono) simp
  then show ?thesis using True by (simp add: to_double_def)
next
  case False
  have inf: "is_inf (to_double x) \<longleftrightarrow> 1024 \<le> binade (nearest x)"
    using False by (simp add: to_double_def Let_def)
  show ?thesis
  proof (cases "pow2 1024 - pow2 970 \<le> \<bar>x\<bar>")
    case True
    then have "pow2 1024 \<le> nearest \<bar>x\<bar>" by (rule nearest_at_threshold)
    then have p: "pow2 1024 \<le> \<bar>nearest x\<bar>" by (simp add: nearest_abs)
    then have "nearest x \<noteq> 0" using pow2_pos [of 1024] by auto
    then show ?thesis using True p inf by (simp add: binade_ge_iff)
  next
    case small: False
    then have "nearest \<bar>x\<bar> < pow2 1024" by (intro nearest_below_threshold) simp_all
    then have p: "\<bar>nearest x\<bar> < pow2 1024" by (simp add: nearest_abs)
    have "\<not> 1024 \<le> binade (nearest x)"
    proof (cases "nearest x = 0")
      case True
      then show ?thesis by (simp add: binade_zero)
    next
      case False
      then show ?thesis using p by (simp add: binade_ge_iff)
    qed
    then show ?thesis using small inf by simp
  qed
qed

lemma to_double_cases:
  "to_double x = Finite (nearest x) \<or> to_double x = NegZero \<or> is_inf (to_double x)"
  by (auto simp: to_double_def Let_def nearest_zero)

lemma to_double_nonpos:
  assumes "x \<le> 0"
  shows "\<not> rat_less_float 0 (to_double x)"
  using assms nearest_nonpos [OF assms] by (auto simp: to_double_def Let_def)

section \<open>The fare in exact arithmetic\<close>

text \<open>
  Below \<open>2\<^sup>4\<^sup>3\<close> kilometres the float roundings inside \<^verbatim>\<open>calculate_fare\<close> cannot move the
  per-kilometre term across a rounding boundary: the exact term is a multiple of \<open>1/125\<close>,
  at least \<open>1/250\<close> away from every half-integer, and the computed one is within \<open>1/256\<close>
  of it.
\<close>

lemma nearest_fix:
  assumes "x = of_int m * pow2 g" "quantum_exp x \<le> g"
  shows "nearest x = x"
proof -
  have "nearest x \<le> of_int m * pow2 g" using assms by (intro nearest_le_grid) simp_all
  moreover have "of_int m * pow2 g \<le> nearest x" using assms by (intro nearest_ge_grid) simp_all
  ultimately show ?thesis using assms(1) by simp
qed

lemma quantum_exp_le:
  assumes "x \<noteq> 0" "\<bar>x\<bar> < pow2 e" "- 1021 \<le> e"
  shows "quantum_exp x \<le> e - 53"
proof -
  have "binade x < e" using binade_less [OF assms(2)] assms(1) by simp
  then show ?thesis using assms(3) by (simp add: quantum_exp_def)
qed

lemma pow2_small: "pow2 (- 1022) \<le> 1 / 2000"
proof -
  have "pow2 (- 1022) \<le> pow2 (- 11)" by (rule pow2_mono) simp
  also have "\<dots> \<le> 1 / 2000" by (simp add: pow2_def)
  finally show ?thesis .
qed

lemma fare_formula_short:
  assumes "d \<le> 1000"
  shows "fare_formula d p = 25 + (p - 1) * 10"
proof -
  have "(of_int d :: rat) \<le> 1000" using assms by (simp add: of_int_le_iff [of d 1000, simplified])
  then have m0: "max 0 ((of_int d :: rat) / 1000 - 1) = 0" by simp
  have "fare_formula d p = round_half_even (of_int (25 + 0 + (p - 1) * 10))"
    by (simp only: fare_formula_def m0 mult_zero_left rhe_zero)
  then show ?thesis by (simp only: rhe_of_int add_0_right)
qed

lemma per_km_round:
  fixes d :: int
  assumes "\<bar>y - (of_int d / 1000 - 1) * 8\<bar> < 1 / 250"
  shows "round_half_even y = (d - 938) div 125"
proof -
  define K where "K = (d - 938) div 125"
  define r where "r = (d - 938) mod 125"
  have r: "0 \<le> r" "r \<le> 124" by (simp_all add: r_def)
  have "d - 938 = 125 * K + r" by (simp add: K_def r_def)
  then have d: "d = 125 * K + r + 938" by simp
  have "(of_int d :: rat) = 125 * of_int K + of_int r + 938" by (simp add: d)
  then have t: "((of_int d :: rat) / 1000 - 1) * 8 = of_int K + (of_int r - 62) / 125"
    by (simp add: field_simps)
  have "(0::rat) \<le> of_int r" "(of_int r :: rat) \<le> 124"
    using r by (simp_all add: of_int_le_iff [of r 124, simplified])
  then have "\<bar>(of_int r - 62) / 125 :: rat\<bar> \<le> 62 / 125" by simp
  with assms t have "of_int K - 1 / 2 < y" "y < of_int K + 1 / 2" by linarith+
  then show ?thesis unfolding K_def [symmetric] by (rule rhe_eqI)
qed

lemma one_less_pow2: "0 < e \<Longrightarrow> 1 < pow2 e"
  using pow2_strict_mono [of 0 e] by (simp add: pow2_def)

text \<open>
  The division \<^verbatim>\<open>distance_meters / 1000\<close> raises exactly when the quotient is out of the
  range of floats.
\<close>

lemma threshold_above_one: "1 < pow2 1024 - pow2 970"
proof -
  have "pow2 1024 = 2 * pow2 1023" using pow2_add [of 1 1023] by (simp add: pow2_def)
  moreover have "pow2 970 \<le> pow2 1023" by (rule pow2_mono) simp
  moreover have "1 < pow2 1023" by (rule one_less_pow2) simp
  ultimately show ?thesis by simp
qed

lemma py_truediv_1000:
  assumes "d \<noteq> 0"
  shows "py_truediv d 1000 =
           (if pow2 1024 - pow2 970 \<le> \<bar>of_int d / 1000\<bar> then Inl OverflowError
            else Inr (to_double (of_int d / 1000)))"
  using assms by (simp add: py_truediv_def Let_def to_double_inf_iff)

lemma calculate_fare_overflow:
  assumes "pow2 1024 - pow2 970 \<le> \<bar>of_int d / 1000\<bar>"
  shows "calculate_fare d p = Inl OverflowError"
proof -
  have "d \<noteq> 0" using assms threshold_above_one by auto
  then show ?thesis using assms by (simp add: calculate_fare_def py_truediv_1000)
qed

text \<open>A distance of at most one kilometre, down to the overflow of the division.\<close>

lemma calculate_fare_short:
  assumes "- (1000 * (2 ^ 1024 - 2 ^ 970)) < d" "d \<le> 1000"
  shows "calculate_fare d p = Inr (25 + (p - 1) * 10)"
proof (cases "d = 0")
  case True
  have "\<not> rat_less_float 0 (to_double (- 1))" by (rule to_double_nonpos) simp
  then show ?thesis using True
    by (simp add: calculate_fare_def py_truediv_def fsub_def py_max_def)
next
  case False
  define x :: rat where "x = of_int d / 1000"
  have "of_int (- (1000 * (2 ^ 1024 - 2 ^ 970))) < (of_int d :: rat)"
    using assms(1) by (simp only: of_int_less_iff)
  then have "- (1000 * (pow2 1024 - pow2 970)) < (of_int d :: rat)" by (simp add: pow2_def)
  then have lo: "- (pow2 1024 - pow2 970) < x" by (simp add: x_def)
  have "(of_int d :: rat) \<le> 1000"
    using assms(2) by (simp add: of_int_le_iff [of d 1000, simplified])
  then have hi: "x \<le> 1" by (simp add: x_def)
  have "\<bar>x\<bar> < pow2 1024 - pow2 970" using lo hi threshold_above_one by simp
  then have fin: "\<not> is_inf (to_double x)" by (simp add: to_double_inf_iff)
  then have km: "py_truediv d 1000 = Inr (to_double x)"
    using False by (simp add: py_truediv_def x_def)
  have le: "nearest x \<le> 1"
  proof (cases "x \<le> 0")
    case True
    then show ?thesis using nearest_nonpos [of x] by simp
  next
    case False
    then have "\<bar>x\<bar> < pow2 1" using hi by (simp add: pow2_def)
    then have "quantum_exp x \<le> 1 - 53" using False by (intro quantum_exp_le) auto
    then have "nearest x \<le> of_int 1 * pow2 0"
      using hi by (intro nearest_le_grid) (simp_all add: pow2_def)
    then show ?thesis by (simp add: pow2_def)
  qed
  have "\<not> rat_less_float 0 (fsub (to_double x) (Finite 1))"
  proof -
    from to_double_cases [of x] fin
    consider "to_double x = Finite (nearest x)" | "to_double x = NegZero" by blast
    then show ?thesis
    proof cases
      case 1
      have "\<not> rat_less_float 0 (to_double (nearest x - 1))"
        using le by (intro to_double_nonpos) simp
      then show ?thesis using 1 by (simp add: fsub_def)
    next
      case 2
      have "\<not> rat_less_float 0 (to_double (- 1))" by (rule to_double_nonpos) simp
      then show ?thesis using 2 by (simp add: fsub_def)
    qed
  qed
  then have "py_max (In 0) (Fl (fsub (to_double x) (Finite 1))) = In 0"
    by (simp add: py_max_def)
  then show ?thesis using km by (simp add: calculate_fare_def)
qed

text \<open>
  A longer distance, below \<open>2\<^sup>4\<^sup>3\<close> kilometres: the quotient is rounded with an error of at
  most \<open>2\<^sup>-\<^sup>1\<^sup>1\<close>; the subtraction and the multiplication by eight are then exact.
\<close>

lemma calculate_fare_long:
  assumes "1000 < d" "d < 8796093022208000"
  shows "calculate_fare d p = Inr (25 + (d - 938) div 125 + (p - 1) * 10)"
proof -
  define x :: rat where "x = of_int d / 1000"
  have "(1001::rat) \<le> of_int d" "(of_int d :: rat) < 8796093022208000"
    using assms
    by (simp_all add: of_int_le_iff [of 1001 d, simplified] of_int_less_iff [of d 8796093022208000, simplified])
  then have x1: "1001 / 1000 \<le> x" and x2: "x < pow2 43" by (simp_all add: x_def pow2_def)
  have x0: "x \<noteq> 0" "\<bar>x\<bar> = x" using x1 by simp_all
  define e where "e = binade x"
  define g where "g = e - 52"
  have e0: "0 \<le> e" unfolding e_def using x1 x0 by (intro binade_le) (simp_all add: pow2_def)
  have e42: "e \<le> 42" using binade_less [of x 43] x2 x0 by (simp add: e_def)
  have bx: "pow2 e \<le> x" "x < pow2 (e + 1)" using binade_bounds [OF x0(1)] x0(2) by (simp_all add: e_def)
  have qx: "quantum_exp x = g" using e0 by (simp add: quantum_exp_def e_def g_def)
  have g10: "g \<le> - 10" using e42 by (simp add: g_def)
  have lo: "pow2 (- 1022) \<le> \<bar>x\<bar>" using x1 pow2_small by simp
  have hi: "\<bar>x\<bar> < pow2 1023"
  proof -
    have "pow2 43 \<le> pow2 1023" by (rule pow2_mono) simp
    then show ?thesis using x2 x0 by simp
  qed
  define y1 where "y1 = nearest x"
  have td1: "to_double x = Finite y1" unfolding y1_def using lo hi by (rule to_double_normal)
  have km: "py_truediv d 1000 = Inr (Finite y1)"
    using assms(1) td1 by (simp add: py_truediv_def x_def)
  \<comment> \<open>the rounded quotient lies on the grid of spacing \<open>2\<^sup>g\<close>, within \<open>2\<^sup>-\<^sup>1\<^sup>1\<close> of \<open>x\<close>\<close>
  define n where "n = round_half_even (x / pow2 g)"
  have y1n: "y1 = of_int n * pow2 g" by (simp add: y1_def nearest_def qx n_def)
  have "\<bar>y1 - x\<bar> \<le> pow2 g / 2" using nearest_err [of x] by (simp add: y1_def qx)
  also have "pow2 g / 2 \<le> pow2 (- 10) / 2" using pow2_mono [OF g10] by simp
  finally have e1: "\<bar>y1 - x\<bar> \<le> 1 / 2048" by (simp add: pow2_def)
  have y1hi: "y1 \<le> pow2 (e + 1)"
  proof -
    have "nearest x \<le> of_int 1 * pow2 (e + 1)"
      using bx by (intro nearest_le_grid) (simp_all add: qx g_def)
    then show ?thesis by (simp add: y1_def)
  qed
  \<comment> \<open>the subtraction is exact\<close>
  define s where "s = y1 - 1"
  have one: "(1::rat) = of_int (2 ^ nat (- g)) * pow2 g"
  proof -
    have "pow2 (- g) = of_int (2 ^ nat (- g))" using g10 by (simp add: pow2_nat)
    then show ?thesis using pow2_add [of "- g" g] by (simp add: pow2_def)
  qed
  have sn: "s = of_int (n - 2 ^ nat (- g)) * pow2 g"
  proof -
    have "of_int (n - 2 ^ nat (- g)) * pow2 g = of_int n * pow2 g - of_int (2 ^ nat (- g)) * pow2 g"
      by (simp only: of_int_diff left_diff_distrib)
    then show ?thesis using one by (simp only: s_def y1n)
  qed
  have spos: "1 / 2000 \<le> s" using x1 e1 unfolding s_def by linarith
  have shi: "s < pow2 (e + 1)" using y1hi by (simp add: s_def)
  have s0: "s \<noteq> 0" "\<bar>s\<bar> = s" using spos by simp_all
  have qs: "quantum_exp s \<le> g"
  proof -
    have "quantum_exp s \<le> e + 1 - 53" using s0 shi e0 by (intro quantum_exp_le) simp_all
    then show ?thesis by (simp add: g_def)
  qed
  have ns: "nearest s = s" using sn qs by (rule nearest_fix)
  have "pow2 (e + 1) \<le> pow2 44" using e42 by (intro pow2_mono) simp
  also have "\<dots> < pow2 1020" by (rule pow2_strict_mono) simp
  finally have e1020: "pow2 (e + 1) < pow2 1020" .
  have "\<bar>s\<bar> < pow2 1023"
  proof -
    have "pow2 1020 \<le> pow2 1023" by (rule pow2_mono) simp
    then show ?thesis using shi e1020 s0 by simp
  qed
  moreover have "pow2 (- 1022) \<le> \<bar>s\<bar>" using spos pow2_small s0 by simp
  ultimately have td2: "to_double s = Finite s" using to_double_normal [of s] ns by simp
  have sub: "fsub (Finite y1) (Finite 1) = Finite s"
    using s0 td2 by (simp add: fsub_def s_def)
  have mx: "py_max (In 0) (Fl (Finite s)) = Fl (Finite s)"
    using spos by (simp add: py_max_def)
  \<comment> \<open>the multiplication by eight is exact\<close>
  have p3: "pow2 (g + 3) = 8 * pow2 g" using pow2_add [of g 3] by (simp add: pow2_def)
  have e4: "pow2 (e + 4) = 8 * pow2 (e + 1)"
  proof -
    have "e + 4 = (e + 1) + 3" by simp
    then have "pow2 (e + 4) = pow2 (e + 1) * pow2 3" by (simp only: pow2_add)
    then show ?thesis by (simp add: pow2_def)
  qed
  have mn: "s * 8 = of_int (n - 2 ^ nat (- g)) * pow2 (g + 3)" by (simp only: sn p3)
  have mhi: "\<bar>s * 8\<bar> < pow2 (e + 4)" unfolding e4 using shi s0 by linarith
  have qm: "quantum_exp (s * 8) \<le> g + 3"
  proof -
    have "quantum_exp (s * 8) \<le> e + 4 - 53" using s0 mhi e0 by (intro quantum_exp_le) simp_all
    then show ?thesis by (simp add: g_def)
  qed
  have nm: "nearest (s * 8) = s * 8" using mn qm by (rule nearest_fix)
  have "\<bar>s * 8\<bar> < pow2 1023"
  proof -
    have "\<bar>s * 8\<bar> < 8 * pow2 1020" using mhi e1020 unfolding e4 by linarith
    also have "8 * pow2 1020 = pow2 1023" using pow2_add [of 1020 3] by (simp add: pow2_def)
    finally show ?thesis .
  qed
  moreover have "pow2 (- 1022) \<le> \<bar>s * 8\<bar>" using spos pow2_small by simp
  ultimately have td3: "to_double (s * 8) = Finite (s * 8)" using to_double_normal [of "s * 8"] nm by simp
  have mul: "fmul (Finite s) (Finite 8) = Finite (s * 8)"
    using s0 td3 by (simp add: fmul_def)
  have "\<bar>s * 8 - (x - 1) * 8\<bar> = 8 * \<bar>y1 - x\<bar>" by (simp add: s_def abs_if)
  also have "\<dots> \<le> 1 / 256" using e1 by simp
  finally have "\<bar>s * 8 - (x - 1) * 8\<bar> < 1 / 250" by simp
  then have r: "round_half_even (s * 8) = (d - 938) div 125"
    unfolding x_def by (rule per_km_round)
  show ?thesis using km sub mx mul r by (simp add: calculate_fare_def)
qed

lemma fare_formula_long:
  assumes "1000 < d"
  shows "fare_formula d p = 25 + (d - 938) div 125 + (p - 1) * 10"
proof -
  have "(1001::rat) \<le> of_int d"
    using assms by (simp add: of_int_le_iff [of 1001 d, simplified])
  then have m: "max 0 (of_int d / 1000 - 1) = (of_int d / 1000 - 1 :: rat)" by simp
  have k: "round_half_even ((of_int d / 1000 - 1) * 8) = (d - 938) div 125"
    by (rule per_km_round) simp
  show ?thesis by (simp only: fare_formula_def m k rhe_of_int)
qed

lemma calculate_fare_exact:
  assumes "- (1000 * (2 ^ 1024 - 2 ^ 970)) < d" "d < 1000 * 2 ^ 43"
  shows "calculate_fare d p = Inr (fare_formula d p)"
proof (cases "d \<le> 1000")
  case True
  then show ?thesis using assms(1) by (simp add: calculate_fare_short fare_formula_short)
next
  case False
  then show ?thesis using assms(2) by (simp add: calculate_fare_long fare_formula_long)
qed

section \<open>Claims about the fare\<close>

text \<open>
  C4: \<open>calculate_fare(1000, 2) = 35\<close>, \<open>calculate_fare(2000, 2) = 43\<close> and
  \<open>calculate_fare(2500, 3) = 57\<close>: at exactly one kilometre there is no per-kilometre
  surcharge, and the per-kilometre term \<open>1.5 * 8 = 12\<close> is rounded before it is added.
\<close>

theorem calculate_fare_examples:
  "calculate_fare 1000 2 = Inr 35 \<and> calculate_fare 2000 2 = Inr 43 \<and> calculate_fare 2500 3 = Inr 57"
  by code_simp

text \<open>
  C1, as stated: for every \<open>distance_meters\<close> and \<open>passenger_count\<close>, \<^verbatim>\<open>calculate_fare\<close>
  returns \<open>round (25 + round (max 0 (distance_meters / 1000 - 1) * 8) + (passenger_count - 1) * 10)\<close>,
  the per-kilometre term rounded first and then the total, both to even on a tie.
  This fails where float arithmetic cannot follow the formula, at both ends.  At
  \<open>8796093022208063\<close> metres (just above \<open>2\<^sup>4\<^sup>3\<close> kilometres) the float quotient is off by
  enough to round the per-kilometre term the other way, and the code returns one peso less
  than the formula.  At \<open>10\<^sup>4\<^sup>0\<^sup>0\<close> metres, and at \<open>-1000 * (2\<^sup>1\<^sup>0\<^sup>2\<^sup>4 - 2\<^sup>9\<^sup>7\<^sup>0)\<close> metres (the
  first negative distance whose quotient rounds beyond the largest float), the division
  raises \<^verbatim>\<open>OverflowError\<close> and nothing is returned, where the formula has the value 25.
\<close>

theorem calculate_fare_formula_counterexample:
  "calculate_fare 8796093022208063 1 = Inr 70368744177681
   \<and> fare_formula 8796093022208063 1 = 70368744177682
   \<and> calculate_fare (10 ^ 400) 1 = Inl OverflowError
   \<and> calculate_fare (- (1000 * (2 ^ 1024 - 2 ^ 970))) 1 = Inl OverflowError
   \<and> fare_formula (- (1000 * (2 ^ 1024 - 2 ^ 970))) 1 = 25"
proof -
  have 1: "calculate_fare 8796093022208063 1 = Inr 70368744177681" by code_simp
  have 2: "fare_formula 8796093022208063 1 = 70368744177682" by code_simp
  have 3: "calculate_fare (10 ^ 400) 1 = Inl OverflowError"
    by (rule calculate_fare_overflow) (simp add: pow2_def)
  have 4: "calculate_fare (- (1000 * (2 ^ 1024 - 2 ^ 970))) 1 = Inl OverflowError"
    by (rule calculate_fare_overflow) (simp add: pow2_def)
  have 5: "fare_formula (- (1000 * (2 ^ 1024 - 2 ^ 970))) 1 = 25"
    by (simp add: fare_formula_short)
  from 1 2 3 4 5 show ?thesis by (simp only: simp_thms)
qed

text \<open>
  C1, as amended: for every \<open>distance_meters\<close> with
  \<open>-1000 * (2\<^sup>1\<^sup>0\<^sup>2\<^sup>4 - 2\<^sup>9\<^sup>7\<^sup>0) < distance_meters < 1000 * 2\<^sup>4\<^sup>3\<close> and every \<open>passenger_count\<close>,
  \<^verbatim>\<open>calculate_fare\<close> returns the value of the formula in exact arithmetic, with both
  roundings applied and ties to even.  The lower bound is the overflow of the division,
  the upper bound (\<open>8796093022208000\<close>) the distance from which the quotient's rounding
  error can reach the next rounding boundary of the per-kilometre term.
\<close>

theorem calculate_fare_formula:
  assumes "- (1000 * (2 ^ 1024 - 2 ^ 970)) < distance_meters" "distance_meters < 1000 * 2 ^ 43"
  shows "calculate_fare distance_meters passenger_count
           = Inr (fare_formula distance_meters passenger_count)"
  using assms by (rule calculate_fare_exact)

theorem calculate_fare_formula_witness:
  "- (1000 * (2 ^ 1024 - 2 ^ 970)) < (2500::int) \<and> (2500::int) < 1000 * 2 ^ 43
   \<and> calculate_fare 2500 3 = Inr (fare_formula 2500 3) \<and> fare_formula 2500 3 = 57
   \<and> calculate_fare (1 - 1000 * (2 ^ 1024 - 2 ^ 970)) 2
       = Inr (fare_formula (1 - 1000 * (2 ^ 1024 - 2 ^ 970)) 2)
   \<and> fare_formula (1 - 1000 * (2 ^ 1024 - 2 ^ 970)) 2 = 35
   \<and> calculate_fare (1000 * 2 ^ 43 - 1) 1 = Inr (fare_formula (1000 * 2 ^ 43 - 1) 1)
   \<and> fare_formula (1000 * 2 ^ 43 - 1) 1 = 70368744177681"
proof -
  have 1: "- (1000 * (2 ^ 1024 - 2 ^ 970)) < (2500::int)" by simp
  have 2: "(2500::int) < 1000 * 2 ^ 43" by simp
  have 3: "fare_formula 2500 3 = 57" by code_simp
  have 4: "- (1000 * (2 ^ 1024 - 2 ^ 970)) < (1 - 1000 * (2 ^ 1024 - 2 ^ 970) :: int)" by simp
  have 5: "(1 - 1000 * (2 ^ 1024 - 2 ^ 970) :: int) < 1000 * 2 ^ 43" by simp
  have 6: "fare_formula (1 - 1000 * (2 ^ 1024 - 2 ^ 970)) 2 = 35"
    by (simp add: fare_formula_short)
  have 7: "- (1000 * (2 ^ 1024 - 2 ^ 970)) < (1000 * 2 ^ 43 - 1 :: int)" by simp
  have 8: "(1000 * 2 ^ 43 - 1 :: int) < 1000 * 2 ^ 43" by simp
  have 9: "fare_formula (1000 * 2 ^ 43 - 1) 1 = 70368744177681"
    by (simp add: fare_formula_long)
  from calculate_fare_formula [OF 1 2, of 3] calculate_fare_formula [OF 4 5, of 2]
    calculate_fare_formula [OF 7 8, of 1] 1 2 3 6 9
  show ?thesis by (simp only: simp_thms)
qed

text \<open>
  C5: for every \<open>passengerCount\<close> in \<open>{2, 3}\<close> and every \<open>distanceMeters\<close> in \<open>[0, 10000]\<close>,
  \<^verbatim>\<open>calculate_fare\<close> returns a fare, and the fare is at least
  \<open>25 + (passengerCount - 1) * 10\<close>.
\<close>

theorem fare_lower_bound:
  assumes "0 \<le> distance_meters" "distance_meters \<le> 10000" "passenger_count \<in> {2, 3}"
  shows "\<exists>fare. calculate_fare distance_meters passenger_count = Inr fare
                \<and> 25 + (passenger_count - 1) * 10 \<le> fare"
proof (cases "distance_meters \<le> 1000")
  case True
  then show ?thesis using assms(1) by (simp add: calculate_fare_short)
next
  case False
  then have "0 \<le> (distance_meters - 938) div 125" by simp
  then show ?thesis using False assms(2) by (simp add: calculate_fare_long)
qed

theorem fare_lower_bound_witness:
  "(0::int) \<le> 10000 \<and> (10000::int) \<le> 10000 \<and> (3::int) \<in> {2, 3}
   \<and> (\<exists>fare. calculate_fare 10000 3 = Inr fare \<and> 25 + (3 - 1) * 10 \<le> fare)"
  using fare_lower_bound [of 10000 3] by simp

section \<open>Properties of the bucket key\<close>

subsection \<open>The key as a string\<close>



text \<open>The two cases of \<open>str_nat\<close>, for unfolding it on a numeral.\<close>

lemma str_nat_small: "n < 10 \<Longrightarrow> str_nat n = [digit_char n]"
  by (subst str_nat.simps) simp

lemma str_nat_large: "\<not> n < 10 \<Longrightarrow> str_nat n = str_nat (n div 10) @ [digit_char (n mod 10)]"
  by (subst str_nat.simps) simp

lemmas str_eval = str_int_def str_nat_small str_nat_large digit_char_def







subsection \<open>Components near zero\<close>





subsection \<open>The component and the exact truncation\<close>










subsection \<open>Keys and components\<close>






text \<open>The floats of the worked examples, and their components.\<close>

lemma example_floats:
  "to_double (141234 / 10000) = Finite (3975383686075279 / 281474976710656)"
  "to_double (1215678 / 10000) = Finite (4277286709220711 / 35184372088832)"
  "to_double (141239 / 10000) = Finite (7951048847127269 / 562949953421312)"
  "to_double (1215671 / 10000) = Finite (8554524160320497 / 70368744177664)"
  "to_double (14125 / 1000) = Finite (113 / 8)"
  by code_simp+








section \<open>Outcomes of the two scripts\<close>


lemma randint_attains:
  assumes "a \<le> n" "n \<le> b" "random_source w (random_calls w) = n"
  shows "fst (randint a b w) = n"
  using assms by (simp add: randint_def)


















lemma guardian_block_not_a_map:
  assumes "map_of passenger_data ''guardian'' = Some v" "\<forall>guardian. v \<noteq> PDict guardian"
  shows "guardian_block passenger_data = Inl AttributeError"
  using assms by (cases v) (simp_all add: guardian_block_def)







lemma demo_uuid_first: "uuid_source demo_world (uuid_calls demo_world) = ''booking-0''"
  by (simp add: demo_world_def demo_uuid_def str_eval)



section \<open>Claims about the two scripts\<close>

text \<open>
  In the theorems below the booking record a run has constructed is the document found in
  the \<^verbatim>\<open>bookings\<close> collection, after the run, under the identifier the run returns.
\<close>













section \<open>Claims about the bucket key\<close>






end
